theory Spec2Isabelle
  imports Complex_Main "HOL-Library.Product_Lexorder"
begin

section \<open>Floating-point cells\<close>

text \<open>
  A numeric cell of a data frame is a float64: a finite number, one of the two infinities,
  or NaN, which is also how pandas marks a missing value in a float column. A finite value
  is the real number it denotes; zero has a sign, \<open>Fin 0\<close> being \<open>+0.0\<close> and \<open>NZero\<close> being
  \<open>-0.0\<close>. Rounding, overflow and underflow of finite arithmetic are not modelled, and a
  decimal literal of the source (\<open>0.1\<close>, \<open>-0.8\<close>) is the rational it denotes; no statement
  below rests on the value of a rounded result. Every comparison with NaN is false and the
  two zeros compare equal, as in IEEE 754.
\<close>

datatype fl = Fin real | NZero | PInf | NInf | NaN

fun is_nan :: "fl \<Rightarrow> bool" where
  "is_nan NaN = True"
| "is_nan _ = False"

fun is_inf :: "fl \<Rightarrow> bool" where
  "is_inf PInf = True"
| "is_inf NInf = True"
| "is_inf _ = False"


text \<open>\<open>a < b\<close> on floats.\<close>

fun fl_lt :: "fl \<Rightarrow> fl \<Rightarrow> bool" where
  "fl_lt (Fin x) (Fin y) = (x < y)"
| "fl_lt (Fin x) NZero = (x < 0)"
| "fl_lt NZero (Fin y) = (0 < y)"
| "fl_lt (Fin x) PInf = True"
| "fl_lt NZero PInf = True"
| "fl_lt NInf (Fin y) = True"
| "fl_lt NInf NZero = True"
| "fl_lt NInf PInf = True"
| "fl_lt _ _ = False"

text \<open>\<open>a > b\<close> on floats.\<close>

definition fl_gt :: "fl \<Rightarrow> fl \<Rightarrow> bool" where
  "fl_gt a b = fl_lt b a"

text \<open>\<open>a == b\<close> on floats: NaN equals nothing, itself included; \<open>-0.0 == 0.0\<close>.\<close>

fun fl_eq :: "fl \<Rightarrow> fl \<Rightarrow> bool" where
  "fl_eq (Fin x) (Fin y) = (x = y)"
| "fl_eq (Fin x) NZero = (x = 0)"
| "fl_eq NZero (Fin y) = (y = 0)"
| "fl_eq NZero NZero = True"
| "fl_eq PInf PInf = True"
| "fl_eq NInf NInf = True"
| "fl_eq _ _ = False"

text \<open>\<open>a <= b\<close> and \<open>a >= b\<close> on floats.\<close>

definition fl_le :: "fl \<Rightarrow> fl \<Rightarrow> bool" where
  "fl_le a b = (fl_lt a b \<or> fl_eq a b)"

definition fl_ge :: "fl \<Rightarrow> fl \<Rightarrow> bool" where
  "fl_ge a b = fl_le b a"

text \<open>
  Addition, subtraction and division with the IEEE 754 special cases. A sum that is zero
  is \<open>+0.0\<close> unless both summands are \<open>-0.0\<close>; the sign of a zero or infinite quotient is
  the product of the signs of its operands.
\<close>

fun fl_add :: "fl \<Rightarrow> fl \<Rightarrow> fl" where
  "fl_add (Fin x) (Fin y) = Fin (x + y)"
| "fl_add (Fin x) NZero = Fin x"
| "fl_add NZero (Fin y) = Fin y"
| "fl_add NZero NZero = NZero"
| "fl_add NaN _ = NaN"
| "fl_add _ NaN = NaN"
| "fl_add PInf NInf = NaN"
| "fl_add NInf PInf = NaN"
| "fl_add PInf _ = PInf"
| "fl_add _ PInf = PInf"
| "fl_add NInf _ = NInf"
| "fl_add _ NInf = NInf"

fun fl_neg :: "fl \<Rightarrow> fl" where
  "fl_neg (Fin x) = (if x = 0 then NZero else Fin (- x))"
| "fl_neg NZero = Fin 0"
| "fl_neg PInf = NInf"
| "fl_neg NInf = PInf"
| "fl_neg NaN = NaN"

definition fl_sub :: "fl \<Rightarrow> fl \<Rightarrow> fl" where
  "fl_sub a b = fl_add a (fl_neg b)"

fun fl_div :: "fl \<Rightarrow> fl \<Rightarrow> fl" where
  "fl_div (Fin x) (Fin y) =
     (if y \<noteq> 0 then (if x = 0 then (if 0 < y then Fin 0 else NZero) else Fin (x / y))
      else if 0 < x then PInf
      else if x < 0 then NInf
      else NaN)"
| "fl_div (Fin x) NZero = (if 0 < x then NInf else if x < 0 then PInf else NaN)"
| "fl_div NZero (Fin y) = (if 0 < y then NZero else if y < 0 then Fin 0 else NaN)"
| "fl_div NZero NZero = NaN"
| "fl_div NaN _ = NaN"
| "fl_div _ NaN = NaN"
| "fl_div (Fin x) PInf = (if x < 0 then NZero else Fin 0)"
| "fl_div (Fin x) NInf = (if x < 0 then Fin 0 else NZero)"
| "fl_div NZero PInf = NZero"
| "fl_div NZero NInf = Fin 0"
| "fl_div PInf (Fin y) = (if y < 0 then NInf else PInf)"
| "fl_div PInf NZero = NInf"
| "fl_div NInf (Fin y) = (if y < 0 then PInf else NInf)"
| "fl_div NInf NZero = PInf"
| "fl_div _ _ = NaN"

section \<open>Readings\<close>

text \<open>
  A datetime64 cell that is not NaT: the instant as a count of nanoseconds since the epoch
  in UTC, and the offset from UTC, in nanoseconds, that the column's time zone gives that
  instant (0 in a column without time zone). Rows are ordered by the instant; the \<open>.dt\<close>
  accessors read the wall clock, which is the instant plus the offset.
\<close>

record stamp =
  utc_ns :: int
  offset_ns :: int

text \<open>
  One row of the data frame; a \<open>timestamp\<close> of \<open>None\<close> is NaT. The last five fields are the
  columns the feature and anomaly stages create; each stage assigns its whole column, so
  what such a field holds before its stage ran is never read by that stage.
\<close>

record reading =
  timestamp :: "stamp option"
  meter_id :: int
  region :: string
  voltage :: fl
  current :: fl
  power_kw :: fl
  power_factor :: fl
  temperature_c :: fl
  hour_of_day :: fl
  rolling_kw_1h :: fl
  kw_pct_change :: fl
  anomaly_reason :: "string option"
  anomaly_flag :: bool

section \<open>Anomaly rules (\<open>anomalies.py\<close>)\<close>

text \<open>\<open>sep.join(xs)\<close> of Python.\<close>

fun join :: "string \<Rightarrow> string list \<Rightarrow> string" where
  "join sep [] = []"
| "join sep [x] = x"
| "join sep (x # y # ys) = x @ sep @ join sep (y # ys)"

text \<open>The body of the loop of \<open>_apply_rules\<close> up to the last \<open>if\<close>: the list \<open>r\<close> for one row.\<close>

definition row_rules :: "reading \<Rightarrow> string list" where
  "row_rules row =
     (let r = [];
          r = (if fl_lt (voltage row) (Fin 180) \<or> fl_gt (voltage row) (Fin 250)
               then r @ [''voltage_out_of_range''] else r);
          r = (if fl_lt (current row) (Fin 0) \<or> fl_gt (current row) (Fin 50)
               then r @ [''current_out_of_range''] else r);
          r = (if fl_gt (kw_pct_change row) (Fin (3 / 2))
               then r @ [''sudden_spike''] else r);
          r = (if fl_lt (kw_pct_change row) (Fin (- (4 / 5)))
               then r @ [''sudden_drop''] else r);
          r = (if fl_eq (power_kw row) (Fin 0) \<and> fl_gt (voltage row) (Fin 150)
                  \<and> fl_gt (current row) (Fin (1 / 10))
               then r @ [''zero_power_but_active_line''] else r)
      in r)"

text \<open>The loop over the rows, appending one entry to \<open>reasons\<close> per row.\<close>

fun rules_loop :: "reading list \<Rightarrow> string option list \<Rightarrow> string option list" where
  "rules_loop [] reasons = reasons"
| "rules_loop (row # rows) reasons =
     (let r = row_rules row
      in if length r = 0 then rules_loop rows (reasons @ [None])
         else rules_loop rows (reasons @ [Some (join '','' r)]))"

text \<open>
  \<open>_apply_rules\<close>: the column \<open>anomaly_reason\<close> is assigned from the list, then
  \<open>anomaly_flag\<close> is \<open>notna()\<close> of that column.
\<close>

definition apply_rules :: "reading list \<Rightarrow> reading list" where
  "apply_rules df =
     (let reasons = rules_loop df [];
          df1 = map (\<lambda>(row, v). row\<lparr>anomaly_reason := v\<rparr>) (zip df reasons)
      in map (\<lambda>row. row\<lparr>anomaly_flag := (anomaly_reason row \<noteq> None)\<rparr>) df1)"

text \<open>
  The rule table as the specification words it: five named predicates in declared order,
  each evaluated on its own.
\<close>

definition voltage_out_of_range :: "reading \<Rightarrow> bool" where
  "voltage_out_of_range row = (fl_lt (voltage row) (Fin 180) \<or> fl_gt (voltage row) (Fin 250))"

definition current_out_of_range :: "reading \<Rightarrow> bool" where
  "current_out_of_range row = (fl_lt (current row) (Fin 0) \<or> fl_gt (current row) (Fin 50))"

definition sudden_spike :: "reading \<Rightarrow> bool" where
  "sudden_spike row = fl_gt (kw_pct_change row) (Fin (3 / 2))"

definition sudden_drop :: "reading \<Rightarrow> bool" where
  "sudden_drop row = fl_lt (kw_pct_change row) (Fin (- (4 / 5)))"

definition zero_power_but_active_line :: "reading \<Rightarrow> bool" where
  "zero_power_but_active_line row =
     (fl_eq (power_kw row) (Fin 0) \<and> fl_gt (voltage row) (Fin 150)
      \<and> fl_gt (current row) (Fin (1 / 10)))"

definition rule_table :: "(string \<times> (reading \<Rightarrow> bool)) list" where
  "rule_table =
     [(''voltage_out_of_range'', voltage_out_of_range),
      (''current_out_of_range'', current_out_of_range),
      (''sudden_spike'', sudden_spike),
      (''sudden_drop'', sudden_drop),
      (''zero_power_but_active_line'', zero_power_but_active_line)]"

definition triggered :: "reading \<Rightarrow> string list" where
  "triggered row = map fst (filter (\<lambda>(name, rule). rule row) rule_table)"

text \<open>Rows used as concrete inputs.\<close>

definition blank :: reading where
  "blank = \<lparr>timestamp = None, meter_id = 1, region = ''North'',
            voltage = Fin 230, current = Fin 10, power_kw = Fin 5,
            power_factor = Fin (9 / 10), temperature_c = Fin 20,
            hour_of_day = NaN, rolling_kw_1h = NaN, kw_pct_change = Fin 0,
            anomaly_reason = None, anomaly_flag = False\<rparr>"

definition any_rule :: "reading \<Rightarrow> bool" where
  "any_rule row =
     (voltage_out_of_range row \<or> current_out_of_range row \<or> sudden_spike row
      \<or> sudden_drop row \<or> zero_power_but_active_line row)"

text \<open>The entry of \<open>reasons\<close> that the loop appends for one row.\<close>

definition row_reason :: "reading \<Rightarrow> string option" where
  "row_reason row = (if row_rules row = [] then None else Some (join '','' (row_rules row)))"

section \<open>Type normalisation (\<open>_clean_types\<close>)\<close>

text \<open>
  A raw cell is classified by what the pandas conversion applied to it does with it. A
  timestamp cell is missing (an empty CSV field, read as NaN), a text that
  \<open>pd.to_datetime\<close> parses, carrying the instant it denotes, or a text that it does not
  parse. \<open>_clean_types\<close> calls \<open>pd.to_datetime\<close> without \<open>errors=\<close>, that is with
  \<open>errors="raise"\<close>; the float columns go through \<open>pd.to_numeric(errors="coerce")\<close> and
  \<open>meter_id\<close> through \<open>astype(int)\<close>, which raises on text that is not an integer.
\<close>

datatype ts_cell = TsMissing | TsParses stamp | TsUnparseable string

datatype int_cell = IntParses int | IntUnparseable string

datatype num_cell = NumParses fl | NumUnparseable string

record raw_reading =
  raw_timestamp :: ts_cell
  raw_meter_id :: int_cell
  raw_region :: string
  raw_voltage :: num_cell
  raw_current :: num_cell
  raw_power_kw :: num_cell
  raw_power_factor :: num_cell
  raw_temperature_c :: num_cell

datatype error = TimestampParseError string | MeterIdValueError string

fun to_datetime_cell :: "ts_cell \<Rightarrow> error + stamp option" where
  "to_datetime_cell TsMissing = Inr None"
| "to_datetime_cell (TsParses t) = Inr (Some t)"
| "to_datetime_cell (TsUnparseable s) = Inl (TimestampParseError s)"

fun astype_int_cell :: "int_cell \<Rightarrow> error + int" where
  "astype_int_cell (IntParses n) = Inr n"
| "astype_int_cell (IntUnparseable s) = Inl (MeterIdValueError s)"

fun to_numeric_coerce :: "num_cell \<Rightarrow> fl" where
  "to_numeric_coerce (NumParses x) = x"
| "to_numeric_coerce (NumUnparseable s) = NaN"

text \<open>Converting a whole column: the first cell that raises ends the conversion.\<close>

fun convert_column :: "('a \<Rightarrow> error + 'b) \<Rightarrow> 'a list \<Rightarrow> error + 'b list" where
  "convert_column f [] = Inr []"
| "convert_column f (c # cs) =
     (case f c of
        Inl e \<Rightarrow> Inl e
      | Inr v \<Rightarrow> (case convert_column f cs of Inl e \<Rightarrow> Inl e | Inr vs \<Rightarrow> Inr (v # vs)))"

definition typed_row :: "raw_reading \<Rightarrow> stamp option \<Rightarrow> int \<Rightarrow> reading" where
  "typed_row raw t m =
     \<lparr>timestamp = t, meter_id = m, region = raw_region raw,
      voltage = to_numeric_coerce (raw_voltage raw),
      current = to_numeric_coerce (raw_current raw),
      power_kw = to_numeric_coerce (raw_power_kw raw),
      power_factor = to_numeric_coerce (raw_power_factor raw),
      temperature_c = to_numeric_coerce (raw_temperature_c raw),
      hour_of_day = NaN, rolling_kw_1h = NaN, kw_pct_change = NaN,
      anomaly_reason = None, anomaly_flag = False\<rparr>"

definition clean_types :: "raw_reading list \<Rightarrow> error + reading list" where
  "clean_types df =
     (case convert_column to_datetime_cell (map raw_timestamp df) of
        Inl e \<Rightarrow> Inl e
      | Inr ts \<Rightarrow>
          (case convert_column astype_int_cell (map raw_meter_id df) of
             Inl e \<Rightarrow> Inl e
           | Inr ids \<Rightarrow> Inr (map (\<lambda>(raw, t, m). typed_row raw t m) (zip df (zip ts ids)))))"

section \<open>Value sanitisation (\<open>_clean_values\<close>)\<close>

text \<open>
  \<open>df.loc[mask, col] = v\<close> rewrites the cells of one column in the rows where the mask
  holds: \<open>loc_set msk upd\<close> is what it does to one row. Assigning \<open>None\<close> to a float column
  stores NaN. \<open>dropna(subset=...)\<close> keeps the rows in which none of the three columns is
  NaN.
\<close>

definition loc_set :: "(reading \<Rightarrow> bool) \<Rightarrow> (reading \<Rightarrow> reading) \<Rightarrow> reading \<Rightarrow> reading" where
  "loc_set msk upd r = (if msk r then upd r else r)"

definition clean_values :: "reading list \<Rightarrow> reading list" where
  "clean_values df0 =
     (let df1 = map (loc_set (\<lambda>r. fl_lt (voltage r) (Fin 50)) (\<lambda>r. r\<lparr>voltage := NaN\<rparr>)) df0;
          df2 = map (loc_set (\<lambda>r. fl_lt (current r) (Fin 0)) (\<lambda>r. r\<lparr>current := NaN\<rparr>)) df1;
          df3 = map (loc_set (\<lambda>r. fl_lt (power_kw r) (Fin 0)) (\<lambda>r. r\<lparr>power_kw := NaN\<rparr>)) df2;
          df4 = map (loc_set (\<lambda>r. fl_gt (power_factor r) (Fin 1))
                             (\<lambda>r. r\<lparr>power_factor := Fin 1\<rparr>)) df3;
          df5 = map (loc_set (\<lambda>r. fl_lt (power_factor r) (Fin 0))
                             (\<lambda>r. r\<lparr>power_factor := NaN\<rparr>)) df4
      in filter (\<lambda>r. \<not> is_nan (voltage r) \<and> \<not> is_nan (current r) \<and> \<not> is_nan (power_kw r)) df5)"

text \<open>What the five assignments together do to one row.\<close>

definition sanitize_row :: "reading \<Rightarrow> reading" where
  "sanitize_row =
     loc_set (\<lambda>r. fl_lt (power_factor r) (Fin 0)) (\<lambda>r. r\<lparr>power_factor := NaN\<rparr>)
     \<circ> loc_set (\<lambda>r. fl_gt (power_factor r) (Fin 1)) (\<lambda>r. r\<lparr>power_factor := Fin 1\<rparr>)
     \<circ> loc_set (\<lambda>r. fl_lt (power_kw r) (Fin 0)) (\<lambda>r. r\<lparr>power_kw := NaN\<rparr>)
     \<circ> loc_set (\<lambda>r. fl_lt (current r) (Fin 0)) (\<lambda>r. r\<lparr>current := NaN\<rparr>)
     \<circ> loc_set (\<lambda>r. fl_lt (voltage r) (Fin 50)) (\<lambda>r. r\<lparr>voltage := NaN\<rparr>)"

section \<open>Feature engineering (\<open>_engineer_features\<close>)\<close>

text \<open>
  \<open>dt.hour + dt.minute / 60.0\<close>: hour and minute of the wall clock; both accessors give
  NaN on NaT.
\<close>

definition wall_ns :: "stamp \<Rightarrow> int" where
  "wall_ns t = utc_ns t + offset_ns t"

definition hour_frac :: "stamp option \<Rightarrow> fl" where
  "hour_frac t =
     (case t of
        None \<Rightarrow> NaN
      | Some st \<Rightarrow>
          Fin (real_of_int ((wall_ns st div 3600000000000) mod 24)
               + real_of_int ((wall_ns st div 60000000000) mod 60) / 60))"

text \<open>
  \<open>sort_values(["meter_id", "timestamp"])\<close>: ascending, lexicographic, NaT last, and stable
  (pandas sorts several keys with a stable lexsort). The key of a row is its meter, then
  whether its timestamp is NaT, then the instant.
\<close>

definition row_key :: "reading \<Rightarrow> int \<times> bool \<times> int" where
  "row_key r =
     (meter_id r, timestamp r = None, (case timestamp r of None \<Rightarrow> 0 | Some t \<Rightarrow> utc_ns t))"

definition sort_values :: "reading list \<Rightarrow> reading list" where
  "sort_values df = sort_key row_key df"

text \<open>The rows of one meter, in frame order: one group of \<open>groupby("meter_id")\<close>.\<close>

definition group_of :: "reading list \<Rightarrow> int \<Rightarrow> reading list" where
  "group_of df m = filter (\<lambda>r. meter_id r = m) df"

text \<open>
  \<open>df.groupby("meter_id")["power_kw"]\<close> followed by an operation \<open>f\<close> that maps the series of
  one group to a series of the same length. The operation is applied to the series of each
  group; the result carries the frame's index labels and the column assignment aligns on
  them, so row \<open>i\<close> receives the entry of its own group's result at its position within
  the group. \<open>align_groups\<close> is that last step, for per-group results \<open>res\<close>.
\<close>

definition align_groups :: "(int \<Rightarrow> fl list) \<Rightarrow> reading list \<Rightarrow> fl list" where
  "align_groups res df =
     map (\<lambda>i. res (meter_id (df ! i)) ! length (group_of (take i df) (meter_id (df ! i))))
         [0..<length df]"

definition groupby_power :: "(fl list \<Rightarrow> fl list) \<Rightarrow> reading list \<Rightarrow> fl list" where
  "groupby_power f df = align_groups (\<lambda>m. f (map power_kw (group_of df m))) df"

text \<open>
  \<open>.rolling(window=w, min_periods=p).mean()\<close> on one series. pandas first replaces every
  infinite entry of the series by NaN. At position \<open>k\<close> the window is the last \<open>w\<close> entries
  up to and including \<open>k\<close> (fewer at the start); the mean is taken over the entries that
  are not NaN, and is NaN when fewer than \<open>p\<close> of them exist. pandas computes the mean from
  a compensated running sum, so its float64 value is this mean only up to rounding: below,
  the value of a rolling mean is stated for a window of one entry only, where the sum and
  the division by 1 are exact.
\<close>

definition inf_to_nan :: "fl \<Rightarrow> fl" where
  "inf_to_nan x = (if is_inf x then NaN else x)"

definition window_mean :: "nat \<Rightarrow> fl list \<Rightarrow> fl" where
  "window_mean p win =
     (let obs = filter (\<lambda>x. \<not> is_nan x) win
      in if length obs < p then NaN
         else fl_div (foldl fl_add (Fin 0) obs) (Fin (real (length obs))))"

definition rolling_mean :: "nat \<Rightarrow> nat \<Rightarrow> fl list \<Rightarrow> fl list" where
  "rolling_mean w p xs =
     (let vs = map inf_to_nan xs
      in map (\<lambda>k. window_mean p (drop (Suc k - w) (take (Suc k) vs))) [0..<length xs])"

text \<open>
  \<open>.pct_change()\<close> on one group: pandas forward-fills the series (the default
  \<open>fill_method\<close> of pandas 1 and 2), shifts it by one position and returns
  \<open>filled / shifted - 1\<close>.
\<close>

fun ffill_from :: "fl \<Rightarrow> fl list \<Rightarrow> fl list" where
  "ffill_from prev [] = []"
| "ffill_from prev (x # xs) =
     (if is_nan x then prev # ffill_from prev xs else x # ffill_from x xs)"

definition ffill :: "fl list \<Rightarrow> fl list" where
  "ffill xs = ffill_from NaN xs"

definition shift1 :: "fl list \<Rightarrow> fl list" where
  "shift1 xs = (if xs = [] then [] else NaN # butlast xs)"

definition pct_change :: "fl list \<Rightarrow> fl list" where
  "pct_change xs =
     (let filled = ffill xs; shifted = shift1 filled
      in map (\<lambda>(a, b). fl_sub (fl_div a b) (Fin 1)) (zip filled shifted))"

definition fillna :: "fl \<Rightarrow> fl list \<Rightarrow> fl list" where
  "fillna v xs = map (\<lambda>x. if is_nan x then v else x) xs"

definition engineer_features :: "reading list \<Rightarrow> reading list" where
  "engineer_features df0 =
     (let df1 = map (\<lambda>r. r\<lparr>hour_of_day := hour_frac (timestamp r)\<rparr>) df0;
          df2 = sort_values df1;
          rolling = groupby_power (rolling_mean 4 1) df2;
          df3 = map (\<lambda>(r, v). r\<lparr>rolling_kw_1h := v\<rparr>) (zip df2 rolling);
          pct = fillna (Fin 0) (groupby_power pct_change df3);
          df4 = map (\<lambda>(r, v). r\<lparr>kw_pct_change := v\<rparr>) (zip df3 pct)
      in df4)"

text \<open>A reading of meter \<open>m\<close> at minute \<open>t\<close> with power \<open>p\<close>, used as concrete input.\<close>

definition sample :: "int \<Rightarrow> int \<Rightarrow> fl \<Rightarrow> reading" where
  "sample m t p =
     blank\<lparr>timestamp := Some \<lparr>utc_ns = t * 60000000000, offset_ns = 0\<rparr>, meter_id := m,
           power_kw := p\<rparr>"

text \<open>
  Two notions used to state what a frame-wide operation does to one meter: \<open>pick\<close> is the
  part of a column that lies on the rows of meter \<open>m\<close>, and \<open>group_features\<close> is the three
  derived columns computed on one meter's rows alone.
\<close>

definition pick :: "int \<Rightarrow> reading list \<Rightarrow> 'a list \<Rightarrow> 'a list" where
  "pick m df vs = map snd (filter (\<lambda>(r, v). meter_id r = m) (zip df vs))"

definition group_features :: "reading list \<Rightarrow> reading list" where
  "group_features g =
     (let ps = map power_kw g
      in map (\<lambda>(r, roll, pct).
                r\<lparr>hour_of_day := hour_frac (timestamp r), rolling_kw_1h := roll,
                  kw_pct_change := pct\<rparr>)
             (zip g (zip (rolling_mean 4 1 ps) (fillna (Fin 0) (pct_change ps)))))"

text \<open>The rows of meter \<open>m\<close> in time order: the meter's own series.\<close>

definition meter_series :: "reading list \<Rightarrow> int \<Rightarrow> reading list" where
  "meter_series df m = sort_values (group_of df m)"

text \<open>Frames used as concrete inputs.\<close>

definition zero_then_five :: "reading list" where
  "zero_then_five = [sample 1 0 (Fin 0), sample 1 15 (Fin 5)]"

definition two_meters :: "reading list" where
  "two_meters = [sample 2 30 (Fin 1), sample 1 15 (Fin 5), sample 1 0 (Fin 0), sample 2 0 (Fin 4)]"

definition other_meters :: "reading list" where
  "other_meters = [sample 1 0 (Fin 0), sample 3 0 (Fin 7), sample 1 15 (Fin 5)]"

definition neg_zero_then_five :: "reading list" where
  "neg_zero_then_five = [sample 1 0 NZero, sample 1 15 (Fin 5)]"




definition tripled :: "reading list" where
  "tripled = [sample 1 0 (Fin 1), (sample 1 15 (Fin 3))\<lparr>voltage := Fin 300, current := Fin 60\<rparr>]"

text \<open>A raw row with timestamp cell \<open>c\<close>, and a frame of readings out of range.\<close>

definition raw_row :: "ts_cell \<Rightarrow> raw_reading" where
  "raw_row c =
     \<lparr>raw_timestamp = c, raw_meter_id = IntParses 1, raw_region = ''North'',
      raw_voltage = NumParses (Fin 230), raw_current = NumUnparseable ''n/a'',
      raw_power_kw = NumParses (Fin 5), raw_power_factor = NumParses (Fin (9 / 10)),
      raw_temperature_c = NumParses (Fin 20)\<rparr>"

definition dirty :: "reading list" where
  "dirty = [blank\<lparr>voltage := Fin 40\<rparr>, blank\<lparr>power_factor := Fin (3 / 2)\<rparr>,
            blank\<lparr>power_kw := Fin (- 1)\<rparr>, blank\<lparr>power_factor := Fin (- 1)\<rparr>,
            blank\<lparr>current := NaN\<rparr>]"

text \<open>A row with every field the rules read missing.\<close>

definition all_missing :: reading where
  "all_missing = blank\<lparr>voltage := NaN, current := NaN, power_kw := NaN, kw_pct_change := NaN\<rparr>"

section \<open>Properties of the anomaly rules\<close>

lemma rules_loop_acc: "rules_loop rows acc = acc @ rules_loop rows []"
proof (induction rows arbitrary: acc)
  case Nil
  show ?case by simp
next
  case (Cons row rows)
  show ?case
    using Cons.IH [of "acc @ [None]"] Cons.IH [of "[None]"]
      Cons.IH [of "acc @ [Some (join '','' (row_rules row))]"]
      Cons.IH [of "[Some (join '','' (row_rules row))]"]
    by (simp add: Let_def)
qed

lemma rules_loop_map: "rules_loop rows [] = map row_reason rows"
proof (induction rows)
  case Nil
  show ?case by simp
next
  case (Cons row rows)
  show ?case
    using Cons.IH rules_loop_acc [of rows "[None]"]
      rules_loop_acc [of rows "[Some (join '','' (row_rules row))]"]
    by (simp add: Let_def row_reason_def)
qed

lemma apply_rules_map:
  "apply_rules df =
     map (\<lambda>row. row\<lparr>anomaly_reason := row_reason row, anomaly_flag := (row_reason row \<noteq> None)\<rparr>) df"
  by (simp add: apply_rules_def rules_loop_map Let_def zip_map2 zip_same_conv_map)

lemma row_rules_triggered: "row_rules row = triggered row"
  by (simp add: row_rules_def triggered_def rule_table_def voltage_out_of_range_def
      current_out_of_range_def sudden_spike_def sudden_drop_def
      zero_power_but_active_line_def Let_def)

lemma triggered_empty_iff: "(triggered row = []) = (\<not> any_rule row)"
  by (simp add: triggered_def rule_table_def any_rule_def)

lemma nan_compare_false:
  "is_nan a \<Longrightarrow> \<not> fl_lt a c \<and> \<not> fl_gt a c \<and> \<not> fl_eq a c \<and> \<not> fl_lt c a \<and> \<not> fl_eq c a"
  by (cases a; cases c) (simp_all add: fl_gt_def)

text \<open>
  C6. \<open>_apply_rules\<close> returns one row per input row, the input row with the two annotation
  columns set; \<open>anomaly_flag\<close> is true exactly when at least one of the five rules holds on
  the row, and \<open>anomaly_reason\<close> is null exactly when none holds.
\<close>

theorem apply_rules_flag_iff_rule:
  "length (apply_rules df) = length df \<and>
   (i < length df \<longrightarrow>
      apply_rules df ! i =
        (df ! i)\<lparr>anomaly_reason := anomaly_reason (apply_rules df ! i),
                  anomaly_flag := anomaly_flag (apply_rules df ! i)\<rparr>
      \<and> anomaly_flag (apply_rules df ! i) = any_rule (df ! i)
      \<and> (anomaly_reason (apply_rules df ! i) = None) = (\<not> any_rule (df ! i)))"
  by (simp add: apply_rules_map row_reason_def row_rules_triggered triggered_empty_iff)

theorem apply_rules_flag_iff_rule_witness:
  "length (apply_rules [blank, blank\<lparr>voltage := Fin 170\<rparr>]) = 2
   \<and> any_rule (blank\<lparr>voltage := Fin 170\<rparr>)
   \<and> anomaly_flag (apply_rules [blank, blank\<lparr>voltage := Fin 170\<rparr>] ! 1) = True
   \<and> anomaly_reason (apply_rules [blank, blank\<lparr>voltage := Fin 170\<rparr>] ! 1) \<noteq> None"
  using apply_rules_flag_iff_rule [of "[blank, blank\<lparr>voltage := Fin 170\<rparr>]" 1]
  by (simp add: any_rule_def voltage_out_of_range_def blank_def)

text \<open>
  C10. On a row with NaN in voltage, current, power or percent change, \<open>_apply_rules\<close>
  still returns a row: every comparison of the missing field (with any \<open>c\<close>) is false, no
  rule that reads the field is among the triggered ones, and a row with all four fields
  missing gets flag false and reason null.
\<close>

theorem missing_fields_trigger_nothing:
  assumes "i < length df"
  shows "length (apply_rules df) = length df
    \<and> anomaly_reason (apply_rules df ! i) = row_reason (df ! i)
    \<and> anomaly_flag (apply_rules df ! i) = (row_rules (df ! i) \<noteq> [])
    \<and> (is_nan (voltage (df ! i)) \<longrightarrow>
          \<not> fl_lt (voltage (df ! i)) c \<and> \<not> fl_gt (voltage (df ! i)) c
          \<and> ''voltage_out_of_range'' \<notin> set (row_rules (df ! i))
          \<and> ''zero_power_but_active_line'' \<notin> set (row_rules (df ! i)))
    \<and> (is_nan (current (df ! i)) \<longrightarrow>
          \<not> fl_lt (current (df ! i)) c \<and> \<not> fl_gt (current (df ! i)) c
          \<and> ''current_out_of_range'' \<notin> set (row_rules (df ! i))
          \<and> ''zero_power_but_active_line'' \<notin> set (row_rules (df ! i)))
    \<and> (is_nan (kw_pct_change (df ! i)) \<longrightarrow>
          \<not> fl_lt (kw_pct_change (df ! i)) c \<and> \<not> fl_gt (kw_pct_change (df ! i)) c
          \<and> ''sudden_spike'' \<notin> set (row_rules (df ! i))
          \<and> ''sudden_drop'' \<notin> set (row_rules (df ! i)))
    \<and> (is_nan (power_kw (df ! i)) \<longrightarrow>
          \<not> fl_eq (power_kw (df ! i)) c
          \<and> ''zero_power_but_active_line'' \<notin> set (row_rules (df ! i)))
    \<and> (is_nan (voltage (df ! i)) \<and> is_nan (current (df ! i))
        \<and> is_nan (kw_pct_change (df ! i)) \<and> is_nan (power_kw (df ! i)) \<longrightarrow>
          anomaly_flag (apply_rules df ! i) = False
          \<and> anomaly_reason (apply_rules df ! i) = None)"
proof -
  have out: "apply_rules df ! i =
      (df ! i)\<lparr>anomaly_reason := row_reason (df ! i), anomaly_flag := (row_reason (df ! i) \<noteq> None)\<rparr>"
    using assms by (simp add: apply_rules_map)
  have flag: "(row_reason (df ! i) \<noteq> None) = (row_rules (df ! i) \<noteq> [])"
    by (simp add: row_reason_def)
  have v: "is_nan (voltage (df ! i)) \<Longrightarrow>
      ''voltage_out_of_range'' \<notin> set (row_rules (df ! i))
      \<and> ''zero_power_but_active_line'' \<notin> set (row_rules (df ! i))"
    using nan_compare_false [of "voltage (df ! i)"] by (simp add: row_rules_def Let_def)
  have c: "is_nan (current (df ! i)) \<Longrightarrow>
      ''current_out_of_range'' \<notin> set (row_rules (df ! i))
      \<and> ''zero_power_but_active_line'' \<notin> set (row_rules (df ! i))"
    using nan_compare_false [of "current (df ! i)"] by (simp add: row_rules_def Let_def)
  have k: "is_nan (kw_pct_change (df ! i)) \<Longrightarrow>
      ''sudden_spike'' \<notin> set (row_rules (df ! i))
      \<and> ''sudden_drop'' \<notin> set (row_rules (df ! i))"
    using nan_compare_false [of "kw_pct_change (df ! i)"] by (simp add: row_rules_def Let_def)
  have p: "is_nan (power_kw (df ! i)) \<Longrightarrow>
      ''zero_power_but_active_line'' \<notin> set (row_rules (df ! i))"
    using nan_compare_false [of "power_kw (df ! i)"] by (simp add: row_rules_def Let_def)
  have none: "is_nan (voltage (df ! i)) \<Longrightarrow> is_nan (current (df ! i)) \<Longrightarrow>
      is_nan (kw_pct_change (df ! i)) \<Longrightarrow> is_nan (power_kw (df ! i)) \<Longrightarrow>
      row_rules (df ! i) = []"
    using nan_compare_false [of "voltage (df ! i)"] nan_compare_false [of "current (df ! i)"]
      nan_compare_false [of "kw_pct_change (df ! i)"] nan_compare_false [of "power_kw (df ! i)"]
    by (simp add: row_rules_def Let_def)
  have len: "length (apply_rules df) = length df"
    by (simp add: apply_rules_map)
  show ?thesis
    using v c k p none nan_compare_false [of "voltage (df ! i)" c]
      nan_compare_false [of "current (df ! i)" c]
      nan_compare_false [of "kw_pct_change (df ! i)" c]
      nan_compare_false [of "power_kw (df ! i)" c]
    by (simp add: out flag row_reason_def len)
qed

theorem missing_fields_trigger_nothing_witness:
  "is_nan (voltage all_missing) \<and> is_nan (current all_missing)
   \<and> is_nan (kw_pct_change all_missing) \<and> is_nan (power_kw all_missing)
   \<and> length (apply_rules [all_missing]) = 1
   \<and> row_rules all_missing = []
   \<and> anomaly_flag (apply_rules [all_missing] ! 0) = False
   \<and> anomaly_reason (apply_rules [all_missing] ! 0) = None"
  using missing_fields_trigger_nothing [of 0 "[all_missing]" "Fin 0"]
  by (simp add: all_missing_def blank_def apply_rules_map row_reason_def row_rules_def
      fl_gt_def Let_def)


section \<open>Properties of type normalisation\<close>

lemma convert_column_raises:
  "c \<in> set cs \<Longrightarrow> f c = Inl e \<Longrightarrow> \<exists>e'. convert_column f cs = Inl e'"
  by (induction cs) (auto split: sum.splits)

lemma convert_column_error_from:
  "convert_column f cs = Inl e \<Longrightarrow> \<exists>c\<in>set cs. f c = Inl e"
  by (induction cs) (auto split: sum.splits)

lemma to_datetime_cell_error: "to_datetime_cell c = Inl e \<Longrightarrow> \<exists>s. e = TimestampParseError s"
  by (cases c) auto

lemma convert_column_Cons:
  assumes "convert_column f (c # cs) = Inr vs"
  obtains v vs' where "f c = Inr v" and "convert_column f cs = Inr vs'" and "vs = v # vs'"
  using assms by (auto split: sum.splits)

lemma convert_column_length: "convert_column f cs = Inr vs \<Longrightarrow> length vs = length cs"
proof (induction cs arbitrary: vs)
  case Nil
  then show ?case by simp
next
  case (Cons c cs)
  from Cons.prems obtain v vs' where "convert_column f cs = Inr vs'" and "vs = v # vs'"
    by (rule convert_column_Cons)
  with Cons.IH show ?case by simp
qed

lemma convert_column_nth:
  "convert_column f cs = Inr vs \<Longrightarrow> i < length cs \<Longrightarrow> f (cs ! i) = Inr (vs ! i)"
proof (induction cs arbitrary: vs i)
  case Nil
  then show ?case by simp
next
  case (Cons c cs)
  from Cons.prems(1) obtain v vs' where v: "f c = Inr v"
    and vs': "convert_column f cs = Inr vs'" and vs: "vs = v # vs'"
    by (rule convert_column_Cons)
  show ?case
  proof (cases i)
    case 0
    with v vs show ?thesis by simp
  next
    case (Suc j)
    with Cons.prems(2) have "j < length cs" by simp
    from Cons.IH [OF vs' this] Suc vs show ?thesis by simp
  qed
qed

lemma convert_column_error:
  "convert_column to_datetime_cell cs = Inl e \<Longrightarrow> \<exists>s. e = TimestampParseError s"
  using convert_column_error_from [of to_datetime_cell cs e] to_datetime_cell_error by blast

text \<open>
  C2, as stated, fails: a frame with one timestamp text that does not parse makes
  \<open>_clean_types\<close> raise; no frame is returned and nothing is mapped to null.
\<close>

theorem unparseable_timestamp_raises_counterexample:
  "clean_types [raw_row (TsParses \<lparr>utc_ns = 0, offset_ns = 0\<rparr>), raw_row (TsUnparseable ''not-a-date'')]
     = Inl (TimestampParseError ''not-a-date'')"
  by (simp add: clean_types_def raw_row_def)

text \<open>
  C2, amended. A timestamp text that does not parse makes \<open>_clean_types\<close> raise the
  parser's error for the whole frame. When \<open>_clean_types\<close> returns, it returns one row per
  input row; a missing timestamp cell has become null (NaT) and a text that parses has
  become its instant.
\<close>

theorem clean_types_timestamp:
  assumes "i < length df"
  shows "(raw_timestamp (df ! i) = TsUnparseable s \<longrightarrow>
            (\<exists>s'. clean_types df = Inl (TimestampParseError s')))
    \<and> (clean_types df = Inr out \<longrightarrow>
         length out = length df
         \<and> (raw_timestamp (df ! i) = TsMissing \<longrightarrow> timestamp (out ! i) = None)
         \<and> (raw_timestamp (df ! i) = TsParses t \<longrightarrow> timestamp (out ! i) = Some t))"
proof -
  have raises: "\<exists>s'. clean_types df = Inl (TimestampParseError s')"
    if "raw_timestamp (df ! i) = TsUnparseable s"
  proof -
    have mem: "raw_timestamp (df ! i) \<in> set (map raw_timestamp df)"
      using assms by simp
    have err: "to_datetime_cell (raw_timestamp (df ! i)) = Inl (TimestampParseError s)"
      using that by simp
    from convert_column_raises [of _ _ to_datetime_cell, OF mem err]
    obtain e where e: "convert_column to_datetime_cell (map raw_timestamp df) = Inl e" ..
    from convert_column_error [OF e] obtain s' where "e = TimestampParseError s'" ..
    with e show ?thesis by (simp add: clean_types_def)
  qed
  have returns: "length out = length df
      \<and> (raw_timestamp (df ! i) = TsMissing \<longrightarrow> timestamp (out ! i) = None)
      \<and> (raw_timestamp (df ! i) = TsParses t \<longrightarrow> timestamp (out ! i) = Some t)"
    if "clean_types df = Inr out"
  proof -
    from that obtain ts ids
      where ts: "convert_column to_datetime_cell (map raw_timestamp df) = Inr ts"
        and ids: "convert_column astype_int_cell (map raw_meter_id df) = Inr ids"
        and out: "out = map (\<lambda>(raw, t, m). typed_row raw t m) (zip df (zip ts ids))"
      by (auto simp: clean_types_def split: sum.splits)
    from convert_column_length [OF ts] have lt: "length ts = length df"
      by simp
    from convert_column_nth [OF ts, of i] assms
    have ti: "to_datetime_cell (raw_timestamp (df ! i)) = Inr (ts ! i)"
      by simp
    from convert_column_length [OF ids] have li: "length ids = length df"
      by simp
    have "timestamp (out ! i) = ts ! i"
      using assms lt li by (simp add: out typed_row_def)
    moreover have "length out = length df"
      using lt li by (simp add: out)
    ultimately show ?thesis
      using ti by auto
  qed
  from raises returns show ?thesis by blast
qed

theorem clean_types_timestamp_witness:
  "(\<exists>s'. clean_types [raw_row (TsParses \<lparr>utc_ns = 0, offset_ns = 0\<rparr>), raw_row (TsUnparseable ''not-a-date'')]
            = Inl (TimestampParseError s'))
   \<and> map timestamp (projr (clean_types [raw_row TsMissing, raw_row (TsParses \<lparr>utc_ns = 60, offset_ns = 0\<rparr>)])) = [None, Some \<lparr>utc_ns = 60, offset_ns = 0\<rparr>]"
proof -
  have c: "clean_types [raw_row TsMissing, raw_row (TsParses \<lparr>utc_ns = 60, offset_ns = 0\<rparr>)] =
      Inr [typed_row (raw_row TsMissing) None 1, typed_row (raw_row (TsParses \<lparr>utc_ns = 60, offset_ns = 0\<rparr>)) (Some \<lparr>utc_ns = 60, offset_ns = 0\<rparr>) 1]"
    by (simp add: clean_types_def raw_row_def)
  have a: "\<exists>s'. clean_types [raw_row (TsParses \<lparr>utc_ns = 0, offset_ns = 0\<rparr>), raw_row (TsUnparseable ''not-a-date'')]
            = Inl (TimestampParseError s')"
    using clean_types_timestamp [of 1 "[raw_row (TsParses \<lparr>utc_ns = 0, offset_ns = 0\<rparr>), raw_row (TsUnparseable ''not-a-date'')]"
        "''not-a-date''"]
    by (simp add: raw_row_def)
  from a c show ?thesis
    by (simp add: typed_row_def)
qed


section \<open>Properties of value sanitisation\<close>

lemma clean_values_rows:
  "clean_values df =
     filter (\<lambda>r. \<not> is_nan (voltage r) \<and> \<not> is_nan (current r) \<and> \<not> is_nan (power_kw r))
       (map sanitize_row df)"
  unfolding clean_values_def sanitize_row_def Let_def map_map ..

lemma loc_set_fields:
  "voltage (loc_set msk upd r) = (if msk r then voltage (upd r) else voltage r)"
  "current (loc_set msk upd r) = (if msk r then current (upd r) else current r)"
  "power_kw (loc_set msk upd r) = (if msk r then power_kw (upd r) else power_kw r)"
  "power_factor (loc_set msk upd r) = (if msk r then power_factor (upd r) else power_factor r)"
  by (simp_all add: loc_set_def)

lemma not_lt_ge: "\<not> is_nan a \<Longrightarrow> \<not> fl_lt a (Fin c) \<Longrightarrow> fl_ge a (Fin c)"
  by (cases a) (auto simp: fl_ge_def fl_le_def)

lemma sanitize_row_fields:
  "voltage (sanitize_row r) = (if fl_lt (voltage r) (Fin 50) then NaN else voltage r)"
  "current (sanitize_row r) = (if fl_lt (current r) (Fin 0) then NaN else current r)"
  "power_kw (sanitize_row r) = (if fl_lt (power_kw r) (Fin 0) then NaN else power_kw r)"
  "power_factor (sanitize_row r) =
     (if fl_gt (power_factor r) (Fin 1) then Fin 1
      else if fl_lt (power_factor r) (Fin 0) then NaN else power_factor r)"
  by (simp_all add: sanitize_row_def loc_set_fields)

lemma power_factor_range:
  "is_nan (power_factor (sanitize_row r))
   \<or> (fl_ge (power_factor (sanitize_row r)) (Fin 0) \<and> fl_le (power_factor (sanitize_row r)) (Fin 1))"
  by (cases "power_factor r") (auto simp: sanitize_row_fields fl_gt_def fl_ge_def fl_le_def)

text \<open>
  C3. In every row that \<open>_clean_values\<close> returns, power and current are at least 0, voltage
  is at least 50, none of the three is missing, and the power factor is missing or lies
  in the closed interval from 0 to 1.
\<close>

theorem clean_values_bounds:
  assumes "r \<in> set (clean_values df)"
  shows "fl_ge (power_kw r) (Fin 0) \<and> fl_ge (current r) (Fin 0) \<and> fl_ge (voltage r) (Fin 50)
    \<and> \<not> is_nan (voltage r) \<and> \<not> is_nan (current r) \<and> \<not> is_nan (power_kw r)
    \<and> (is_nan (power_factor r) \<or> (fl_ge (power_factor r) (Fin 0) \<and> fl_le (power_factor r) (Fin 1)))"
proof -
  from assms obtain r0 where r: "r = sanitize_row r0"
    and v: "\<not> is_nan (voltage r)" and c: "\<not> is_nan (current r)" and p: "\<not> is_nan (power_kw r)"
    by (auto simp: clean_values_rows)
  have "fl_ge (voltage r) (Fin 50)"
    using v by (intro not_lt_ge) (auto simp: r sanitize_row_fields split: if_splits)
  moreover have "fl_ge (current r) (Fin 0)"
    using c by (intro not_lt_ge) (auto simp: r sanitize_row_fields split: if_splits)
  moreover have "fl_ge (power_kw r) (Fin 0)"
    using p by (intro not_lt_ge) (auto simp: r sanitize_row_fields split: if_splits)
  ultimately show ?thesis
    using v c p power_factor_range [of r0] by (simp add: r)
qed

theorem clean_values_bounds_witness:
  "clean_values dirty = [blank\<lparr>power_factor := Fin 1\<rparr>, blank\<lparr>power_factor := NaN\<rparr>]
   \<and> fl_ge (power_kw (blank\<lparr>power_factor := Fin 1\<rparr>)) (Fin 0)
   \<and> fl_ge (voltage (blank\<lparr>power_factor := Fin 1\<rparr>)) (Fin 50)
   \<and> fl_le (power_factor (blank\<lparr>power_factor := Fin 1\<rparr>)) (Fin 1)"
proof -
  have cv: "clean_values dirty = [blank\<lparr>power_factor := Fin 1\<rparr>, blank\<lparr>power_factor := NaN\<rparr>]"
    by (simp add: clean_values_def dirty_def blank_def Let_def fl_gt_def loc_set_def)
  then have "blank\<lparr>power_factor := Fin 1\<rparr> \<in> set (clean_values dirty)"
    by simp
  from clean_values_bounds [OF this] cv show ?thesis
    by simp
qed



section \<open>Feature engineering, meter by meter\<close>

lemma pick_snoc:
  "length vs = length df \<Longrightarrow>
   pick m (df @ [r]) (vs @ [v]) = pick m df vs @ (if meter_id r = m then [v] else [])"
  by (simp add: pick_def)

lemma length_pick: "length vs = length df \<Longrightarrow> length (pick m df vs) = length (group_of df m)"
  by (induction vs df rule: list_induct2) (simp_all add: pick_def group_of_def)

lemma pick_map: "pick m df (map c vs) = map c (pick m df vs)"
proof (induction df arbitrary: vs)
  case Nil
  show ?case by (simp add: pick_def)
next
  case (Cons r df)
  show ?case using Cons.IH by (cases vs) (simp_all add: pick_def)
qed

lemma length_align_groups: "length (align_groups res df) = length df"
  by (simp add: align_groups_def)

lemma align_groups_snoc:
  "align_groups res (df @ [r]) =
     align_groups res df @ [res (meter_id r) ! length (group_of df (meter_id r))]"
  by (auto simp: align_groups_def nth_append)

lemma group_of_snoc: "group_of (df @ [r]) m = group_of df m @ (if meter_id r = m then [r] else [])"
  by (simp add: group_of_def)

lemma pick_align_groups:
  "length (group_of df m) \<le> length (res m) \<Longrightarrow>
   pick m df (align_groups res df) = take (length (group_of df m)) (res m)"
proof (induction df rule: rev_induct)
  case Nil
  show ?case by (simp add: pick_def group_of_def)
next
  case (snoc r df)
  from snoc.prems have le: "length (group_of df m) \<le> length (res m)"
    by (simp add: group_of_snoc split: if_splits)
  show ?case
  proof (cases "meter_id r = m")
    case True
    with snoc.prems have lt: "length (group_of df m) < length (res m)"
      by (simp add: group_of_snoc)
    show ?thesis
      using True snoc.IH [OF le] lt
      by (simp add: align_groups_snoc pick_snoc length_align_groups group_of_snoc
          take_Suc_conv_app_nth)
  next
    case False
    then show ?thesis
      using snoc.IH [OF le]
      by (simp add: align_groups_snoc pick_snoc length_align_groups group_of_snoc)
  qed
qed

lemma pick_groupby_power:
  assumes "\<And>ys. length (f ys) = length ys"
  shows "pick m df (groupby_power f df) = f (map power_kw (group_of df m))"
  using pick_align_groups [of df m "\<lambda>m. f (map power_kw (group_of df m))"] assms
  by (simp add: groupby_power_def)

lemma length_groupby_power: "length (groupby_power f df) = length df"
  by (simp add: groupby_power_def length_align_groups)

lemma group_of_zip_update:
  assumes "\<And>r v. meter_id (upd r v) = meter_id r" and "length vs = length df"
  shows "group_of (map (\<lambda>(r, v). upd r v) (zip df vs)) m =
         map (\<lambda>(r, v). upd r v) (zip (group_of df m) (pick m df vs))"
  using assms(2)
  by (induction vs df rule: list_induct2) (simp_all add: group_of_def pick_def assms(1))

lemma group_of_map:
  assumes "\<And>r. meter_id (h r) = meter_id r"
  shows "group_of (map h df) m = map h (group_of df m)"
  by (induction df) (simp_all add: group_of_def assms)

lemma insort_key_map:
  "insort_key f (h x) (map h ys) = map h (insort_key (\<lambda>y. f (h y)) x ys)"
  by (induction ys) simp_all

lemma sort_key_map: "sort_key f (map h xs) = map h (sort_key (\<lambda>y. f (h y)) xs)"
  by (induction xs) (simp_all add: insort_key_map)

lemma sort_values_map:
  assumes "\<And>r. row_key (h r) = row_key r"
  shows "sort_values (map h df) = map h (sort_values df)"
  by (simp add: sort_values_def sort_key_map assms)

lemma length_rolling_mean: "length (rolling_mean w p xs) = length xs"
  by (simp add: rolling_mean_def)

lemma length_ffill_from: "length (ffill_from a xs) = length xs"
  by (induction xs arbitrary: a) simp_all

lemma length_shift1: "length (shift1 xs) = length xs"
  by (cases xs) (simp_all add: shift1_def)

lemma length_pct_change: "length (pct_change xs) = length xs"
  by (simp add: pct_change_def Let_def ffill_def length_shift1 length_ffill_from)

lemma length_fillna: "length (fillna v xs) = length xs"
  by (simp add: fillna_def)

lemma map_proj_zip_update:
  assumes "\<And>r v. p (upd r v) = p r" and "length vs = length xs"
  shows "map p (map (\<lambda>(r, v). upd r v) (zip xs vs)) = map p xs"
  using assms(2) by (induction vs xs rule: list_induct2) (simp_all add: assms(1))

lemma group_of_engineer_features:
  "group_of (engineer_features df) m = group_features (group_of (sort_values df) m)"
proof -
  define h :: "reading \<Rightarrow> reading"
    where "h = (\<lambda>r. r\<lparr>hour_of_day := hour_frac (timestamp r)\<rparr>)"
  define df2 where "df2 = sort_values (map h df)"
  define rolling where "rolling = groupby_power (rolling_mean 4 1) df2"
  define df3 where "df3 = map (\<lambda>(r, v). r\<lparr>rolling_kw_1h := v\<rparr>) (zip df2 rolling)"
  define pct where "pct = fillna (Fin 0) (groupby_power pct_change df3)"
  define g where "g = group_of (sort_values df) m"
  have ef: "engineer_features df = map (\<lambda>(r, v). r\<lparr>kw_pct_change := v\<rparr>) (zip df3 pct)"
    by (simp add: engineer_features_def Let_def h_def df2_def rolling_def df3_def pct_def)
  have hk: "row_key (h r) = row_key r" for r
    by (simp add: h_def row_key_def)
  have hm: "meter_id (h r) = meter_id r" for r
    by (simp add: h_def)
  have g2: "group_of df2 m = map h g"
    by (simp add: df2_def g_def sort_values_map [of h, OF hk] group_of_map [of h, OF hm])
  have ps2: "map power_kw (group_of df2 m) = map power_kw g"
    by (simp add: g2 h_def)
  have len_r: "length rolling = length df2"
    by (simp add: rolling_def length_groupby_power)
  have pick_r: "pick m df2 rolling = rolling_mean 4 1 (map power_kw g)"
    by (simp add: rolling_def pick_groupby_power length_rolling_mean ps2)
  have g3: "group_of df3 m =
      map (\<lambda>(r, v). r\<lparr>rolling_kw_1h := v\<rparr>) (zip (map h g) (rolling_mean 4 1 (map power_kw g)))"
    using group_of_zip_update [of "\<lambda>r v. r\<lparr>rolling_kw_1h := v\<rparr>" rolling df2 m] len_r
    by (simp add: df3_def g2 pick_r)
  have ps3: "map power_kw (group_of df3 m) = map power_kw g"
    using map_proj_zip_update [of power_kw "\<lambda>r v. r\<lparr>rolling_kw_1h := v\<rparr>"
        "rolling_mean 4 1 (map power_kw g)" "map h g"]
    by (simp add: g3 length_rolling_mean h_def)
  have len_p: "length pct = length df3"
    by (simp add: pct_def length_fillna length_groupby_power)
  have pick_p: "pick m df3 pct = fillna (Fin 0) (pct_change (map power_kw g))"
    by (simp add: pct_def fillna_def pick_map pick_groupby_power length_pct_change ps3)
  have g4: "group_of (engineer_features df) m =
      map (\<lambda>(r, v). r\<lparr>kw_pct_change := v\<rparr>)
        (zip (group_of df3 m) (fillna (Fin 0) (pct_change (map power_kw g))))"
    using group_of_zip_update [of "\<lambda>r v. r\<lparr>kw_pct_change := v\<rparr>" pct df3 m] len_p
    by (simp add: ef pick_p)
  show ?thesis
    unfolding g4 g3 group_features_def Let_def g_def [symmetric]
    by (rule nth_equalityI)
      (simp_all add: length_rolling_mean length_fillna length_pct_change h_def)
qed

lemma group_of_sort_values: "group_of (sort_values df) m = sort_values (group_of df m)"
  by (simp add: group_of_def sort_values_def filter_sort)

lemma meter_features:
  "group_of (engineer_features df) m = group_features (sort_values (group_of df m))"
  by (simp add: group_of_engineer_features group_of_sort_values)

text \<open>
  The series of a meter is the meter's rows of the sorted frame: the same rows as in the
  input, in ascending order of their keys.
\<close>

lemma meter_series_ordered:
  "sorted (map row_key (meter_series df m))"
  "set (meter_series df m) = {r \<in> set df. meter_id r = m}"
  "length (meter_series df m) = length (group_of df m)"
  "group_of (sort_values df) m = meter_series df m"
  by (simp_all add: meter_series_def sort_values_def group_of_def filter_sort)

lemma length_sort_values: "length (sort_values df) = length df"
  by (simp add: sort_values_def)

lemma length_group_features: "length (group_features g) = length g"
  by (simp add: group_features_def Let_def length_rolling_mean length_fillna length_pct_change)

lemma group_features_nth:
  "j < length g \<Longrightarrow>
   group_features g ! j =
     (g ! j)\<lparr>hour_of_day := hour_frac (timestamp (g ! j)),
             rolling_kw_1h := rolling_mean 4 1 (map power_kw g) ! j,
             kw_pct_change := fillna (Fin 0) (pct_change (map power_kw g)) ! j\<rparr>"
  by (simp add: group_features_def Let_def length_rolling_mean length_fillna length_pct_change)

lemma fl_div_nan_right: "fl_div a NaN = NaN"
  by (cases a) simp_all

lemma pct_change_first: "xs \<noteq> [] \<Longrightarrow> pct_change xs ! 0 = NaN"
  by (cases xs)
    (simp_all add: pct_change_def Let_def ffill_def shift1_def fl_div_nan_right fl_sub_def
      length_ffill_from split: if_splits)

lemma fillna_nth: "j < length xs \<Longrightarrow> fillna v xs ! j = (if is_nan (xs ! j) then v else xs ! j)"
  by (simp add: fillna_def)





lemma ffill_from_nth:
  "j < length xs \<Longrightarrow>
   ffill_from a xs ! j =
     (if is_nan (xs ! j) then (if j = 0 then a else ffill_from a xs ! (j - 1)) else xs ! j)"
proof (induction xs arbitrary: a j)
  case Nil
  then show ?case by simp
next
  case (Cons x xs)
  show ?case
  proof (cases j)
    case 0
    then show ?thesis by simp
  next
    case (Suc i)
    with Cons.prems have i: "i < length xs" by simp
    show ?thesis
    proof (cases i)
      case 0
      with Suc i show ?thesis
        using Cons.IH [OF i, of x] Cons.IH [OF i, of a] by simp
    next
      case (Suc i')
      with \<open>j = Suc i\<close> i show ?thesis
        using Cons.IH [OF i, of x] Cons.IH [OF i, of a] by simp
    qed
  qed
qed

lemma shift1_nth_Suc: "Suc j < length xs \<Longrightarrow> shift1 xs ! Suc j = xs ! j"
  by (auto simp: shift1_def nth_butlast)

lemma pct_change_nth_Suc:
  assumes "Suc j < length xs"
  shows "pct_change xs ! Suc j = fl_sub (fl_div (ffill xs ! Suc j) (ffill xs ! j)) (Fin 1)"
proof -
  have len: "length (ffill xs) = length xs"
    by (simp add: ffill_def length_ffill_from)
  with assms show ?thesis
    by (simp add: pct_change_def Let_def length_shift1 shift1_nth_Suc)
qed

lemma pct_after_present:
  assumes "Suc j < length xs" and "\<not> is_nan (xs ! j)"
  shows "pct_change xs ! Suc j =
           fl_sub (fl_div (if is_nan (xs ! Suc j) then xs ! j else xs ! Suc j) (xs ! j)) (Fin 1)"
proof -
  from assms have j: "j < length xs" by simp
  have a: "ffill xs ! j = xs ! j"
    using ffill_from_nth [OF j, of NaN] assms(2) by (simp add: ffill_def)
  have b: "ffill xs ! Suc j = (if is_nan (xs ! Suc j) then xs ! j else xs ! Suc j)"
    using ffill_from_nth [OF assms(1), of NaN] a by (simp add: ffill_def)
  show ?thesis
    by (simp add: pct_change_nth_Suc [OF assms(1)] a b)
qed

lemma zero_by_zero:
  "fl_eq z (Fin 0) \<Longrightarrow> fl_eq c (Fin 0) \<Longrightarrow> fl_sub (fl_div c z) (Fin 1) = NaN"
  by (cases z; cases c) (simp_all add: fl_sub_def)

lemma nonzero_by_zero:
  assumes "fl_eq z (Fin 0)" and "\<not> fl_eq c (Fin 0)" and "\<not> is_nan c"
  shows "is_inf (fl_sub (fl_div c z) (Fin 1))"
  using assms by (cases z; cases c) (simp_all add: fl_sub_def)

lemma by_pos_zero:
  "fl_gt c (Fin 0) \<Longrightarrow> fl_sub (fl_div c (Fin 0)) (Fin 1) = PInf"
  "fl_lt c (Fin 0) \<Longrightarrow> fl_sub (fl_div c (Fin 0)) (Fin 1) = NInf"
  by (cases c; simp add: fl_sub_def fl_gt_def)+

lemma by_neg_zero:
  "fl_gt c (Fin 0) \<Longrightarrow> fl_sub (fl_div c NZero) (Fin 1) = NInf"
  "fl_lt c (Fin 0) \<Longrightarrow> fl_sub (fl_div c NZero) (Fin 1) = PInf"
  by (cases c; simp add: fl_sub_def fl_gt_def)+

lemma zero_by_any:
  "fl_eq c (Fin 0) \<Longrightarrow>
   fl_sub (fl_div c b) (Fin 1) = NaN \<or> fl_sub (fl_div c b) (Fin 1) = Fin (- 1)"
  by (cases c; cases b) (simp_all add: fl_sub_def)

lemma pct_column_not_nan:
  assumes "r \<in> set (engineer_features df)"
  shows "\<not> is_nan (kw_pct_change r)"
proof -
  from assms obtain r' v where "r = r'\<lparr>kw_pct_change := v\<rparr>"
    and "v \<in> set (fillna (Fin 0) (groupby_power pct_change
          (map (\<lambda>(r, v). r\<lparr>rolling_kw_1h := v\<rparr>)
            (zip (sort_values (map (\<lambda>r. r\<lparr>hour_of_day := hour_frac (timestamp r)\<rparr>) df))
              (groupby_power (rolling_mean 4 1)
                (sort_values (map (\<lambda>r. r\<lparr>hour_of_day := hour_frac (timestamp r)\<rparr>) df)))))))"
    by (auto simp: engineer_features_def Let_def dest: set_zip_rightD)
  then show ?thesis
    by (auto simp: fillna_def)
qed

lemma determined_by_groups:
  assumes "map meter_id xs = map meter_id ys" and "\<And>m. group_of xs m = group_of ys m"
  shows "xs = ys"
  using assms
proof (induction xs arbitrary: ys)
  case Nil
  then show ?case by simp
next
  case (Cons x xs)
  from Cons.prems(1) obtain y ys' where ys: "ys = y # ys'"
    and m: "meter_id x = meter_id y" and ms: "map meter_id xs = map meter_id ys'"
    by (cases ys) auto
  have "x = y"
    using Cons.prems(2) [of "meter_id x"] m by (simp add: ys group_of_def)
  moreover have "group_of xs k = group_of ys' k" for k
    using Cons.prems(2) [of k] m by (simp add: ys group_of_def split: if_splits)
  then have "xs = ys'"
    using Cons.IH [OF ms] by simp
  ultimately show ?case by (simp add: ys)
qed

lemma proj_engineer_features:
  assumes "\<And>r v. p (r\<lparr>hour_of_day := v\<rparr>) = p r"
    and "\<And>r v. p (r\<lparr>rolling_kw_1h := v\<rparr>) = p r"
    and "\<And>r v. p (r\<lparr>kw_pct_change := v\<rparr>) = p r"
    and "\<And>r. row_key (r\<lparr>hour_of_day := hour_frac (timestamp r)\<rparr>) = row_key r"
  shows "map p (engineer_features df) = map p (sort_values df)"
proof -
  define h :: "reading \<Rightarrow> reading"
    where "h = (\<lambda>r. r\<lparr>hour_of_day := hour_frac (timestamp r)\<rparr>)"
  define df2 where "df2 = sort_values (map h df)"
  define rolling where "rolling = groupby_power (rolling_mean 4 1) df2"
  define df3 where "df3 = map (\<lambda>(r, v). r\<lparr>rolling_kw_1h := v\<rparr>) (zip df2 rolling)"
  define pct where "pct = fillna (Fin 0) (groupby_power pct_change df3)"
  have ef: "engineer_features df = map (\<lambda>(r, v). r\<lparr>kw_pct_change := v\<rparr>) (zip df3 pct)"
    by (simp add: engineer_features_def Let_def h_def df2_def rolling_def df3_def pct_def)
  have hk: "row_key (h r) = row_key r" for r
    using assms(4) by (simp add: h_def)
  have "map p (engineer_features df) = map p df3"
    unfolding ef
    by (rule map_proj_zip_update) (simp_all add: assms(3) pct_def length_fillna length_groupby_power)
  also have "\<dots> = map p df2"
    unfolding df3_def
    by (rule map_proj_zip_update) (simp_all add: assms(2) rolling_def length_groupby_power)
  also have "\<dots> = map p (sort_values df)"
  proof -
    have "p (h r) = p r" for r
      by (simp add: h_def assms(1))
    then show ?thesis
      by (simp add: df2_def sort_values_map [of h, OF hk])
  qed
  finally show ?thesis .
qed

lemma sort_values_engineer_features:
  "sort_values (engineer_features df) = engineer_features df"
proof -
  have "map row_key (engineer_features df) = map row_key (sort_values df)"
    by (rule proj_engineer_features) (simp_all add: row_key_def)
  then have "sorted (map row_key (engineer_features df))"
    by (simp add: sort_values_def)
  then show ?thesis
    by (simp add: sort_values_def sort_key_id_if_sorted)
qed

lemma power_group_features: "map power_kw (group_features g) = map power_kw g"
  by (rule nth_equalityI) (simp_all add: length_group_features group_features_nth)

lemma group_features_twice: "group_features (group_features g) = group_features g"
  by (rule nth_equalityI)
    (simp_all add: length_group_features group_features_nth power_group_features)

lemma group_features_stale:
  "group_features (map (\<lambda>r. r\<lparr>hour_of_day := a r, rolling_kw_1h := b r, kw_pct_change := c r\<rparr>) g)
     = group_features g"
  by (rule nth_equalityI)
    (simp_all add: length_group_features group_features_nth comp_def)

lemma engineer_features_stale:
  "engineer_features (map (\<lambda>r. r\<lparr>hour_of_day := a r, rolling_kw_1h := b r, kw_pct_change := c r\<rparr>) df)
     = engineer_features df"
proof -
  define st :: "reading \<Rightarrow> reading"
    where "st = (\<lambda>r. r\<lparr>hour_of_day := a r, rolling_kw_1h := b r, kw_pct_change := c r\<rparr>)"
  have k: "row_key (st r) = row_key r" for r
    by (simp add: st_def row_key_def)
  have m: "meter_id (st r) = meter_id r" for r
    by (simp add: st_def)
  have "map meter_id (engineer_features (map st df)) = map meter_id (sort_values (map st df))"
    by (rule proj_engineer_features) (simp_all add: row_key_def)
  also have "\<dots> = map meter_id (sort_values df)"
    by (simp add: sort_values_map [of st, OF k] m)
  also have "\<dots> = map meter_id (engineer_features df)"
    by (rule proj_engineer_features [symmetric]) (simp_all add: row_key_def)
  finally have ids: "map meter_id (engineer_features (map st df)) = map meter_id (engineer_features df)" .
  have grp: "group_of (engineer_features (map st df)) n = group_of (engineer_features df) n" for n
  proof -
    have "group_of (sort_values (map st df)) n = map st (group_of (sort_values df) n)"
      by (simp add: sort_values_map [of st, OF k] group_of_map [of st, OF m])
    then show ?thesis
      using group_features_stale [where a = a and b = b and c = c and g = "group_of (sort_values df) n"]
      by (simp add: group_of_engineer_features st_def)
  qed
  from ids grp have "engineer_features (map st df) = engineer_features df"
    by (rule determined_by_groups)
  then show ?thesis by (simp add: st_def)
qed

section \<open>Properties of feature engineering\<close>

text \<open>
  C1, as stated, fails: meter 1 reads 0 kW and, fifteen minutes later, 5 kW; the second
  sample's \<open>kw_pct_change\<close> is \<open>5 / 0 - 1\<close>, which is plus infinity, and \<open>fillna(0)\<close>
  replaces NaN only.
\<close>

theorem pct_change_infinite_counterexample:
  "meter_id (engineer_features zero_then_five ! 0) = meter_id (engineer_features zero_then_five ! 1)
   \<and> timestamp (engineer_features zero_then_five ! 0) = Some \<lparr>utc_ns = 0, offset_ns = 0\<rparr>
   \<and> timestamp (engineer_features zero_then_five ! 1)
       = Some \<lparr>utc_ns = 900000000000, offset_ns = 0\<rparr>
   \<and> power_kw (engineer_features zero_then_five ! 0) = Fin 0
   \<and> kw_pct_change (engineer_features zero_then_five ! 1) = PInf"
  by code_simp

text \<open>
  C1, amended. When the preceding sample of the same meter has power exactly 0 (\<open>+0.0\<close> or
  \<open>-0.0\<close>), \<open>kw_pct_change\<close> is 0 if the sample's own power is 0 or missing, and is an
  infinity otherwise: plus infinity for a positive power after \<open>+0.0\<close> and for a negative
  power after \<open>-0.0\<close>, minus infinity for a negative power after \<open>+0.0\<close> and for a positive
  power after \<open>-0.0\<close>. NaN never appears in the \<open>kw_pct_change\<close> column.
\<close>

theorem pct_change_after_zero_power:
  assumes "Suc j < length (meter_series df m)"
    and "fl_eq (power_kw (meter_series df m ! j)) (Fin 0)"
  shows "(fl_eq (power_kw (meter_series df m ! Suc j)) (Fin 0)
            \<or> is_nan (power_kw (meter_series df m ! Suc j))
           \<longrightarrow> kw_pct_change (group_of (engineer_features df) m ! Suc j) = Fin 0)
    \<and> (\<not> fl_eq (power_kw (meter_series df m ! Suc j)) (Fin 0)
            \<and> \<not> is_nan (power_kw (meter_series df m ! Suc j))
           \<longrightarrow> is_inf (kw_pct_change (group_of (engineer_features df) m ! Suc j)))
    \<and> (power_kw (meter_series df m ! j) = Fin 0
            \<and> fl_gt (power_kw (meter_series df m ! Suc j)) (Fin 0)
          \<or> power_kw (meter_series df m ! j) = NZero
            \<and> fl_lt (power_kw (meter_series df m ! Suc j)) (Fin 0)
           \<longrightarrow> kw_pct_change (group_of (engineer_features df) m ! Suc j) = PInf)
    \<and> (power_kw (meter_series df m ! j) = Fin 0
            \<and> fl_lt (power_kw (meter_series df m ! Suc j)) (Fin 0)
          \<or> power_kw (meter_series df m ! j) = NZero
            \<and> fl_gt (power_kw (meter_series df m ! Suc j)) (Fin 0)
           \<longrightarrow> kw_pct_change (group_of (engineer_features df) m ! Suc j) = NInf)
    \<and> (\<forall>r\<in>set (engineer_features df). \<not> is_nan (kw_pct_change r))"
proof -
  define g where "g = meter_series df m"
  define ps where "ps = map power_kw g"
  define prev where "prev = power_kw (g ! j)"
  define cur where "cur = power_kw (g ! Suc j)"
  have out: "group_of (engineer_features df) m = group_features g"
    by (simp add: meter_features g_def meter_series_def)
  from assms have j: "Suc j < length g" "Suc j < length ps" and z: "fl_eq prev (Fin 0)"
    and p: "ps ! j = prev" and c: "ps ! Suc j = cur"
    by (simp_all add: g_def ps_def cur_def prev_def)
  from z have present: "\<not> is_nan prev"
    by (cases prev) simp_all
  have pct: "pct_change ps ! Suc j =
      fl_sub (fl_div (if is_nan cur then prev else cur) prev) (Fin 1)"
    using pct_after_present [OF j(2)] present by (simp add: p c)
  have val: "kw_pct_change (group_features g ! Suc j) =
      (if is_nan (pct_change ps ! Suc j) then Fin 0 else pct_change ps ! Suc j)"
    using j by (simp add: group_features_nth fillna_nth length_pct_change ps_def)
  have zero: "kw_pct_change (group_features g ! Suc j) = Fin 0" if "fl_eq cur (Fin 0) \<or> is_nan cur"
  proof -
    have "fl_eq (if is_nan cur then prev else cur) (Fin 0)"
      using that z by auto
    from zero_by_zero [OF z this] show ?thesis
      by (simp add: val pct)
  qed
  have raw: "kw_pct_change (group_features g ! Suc j) = fl_sub (fl_div cur prev) (Fin 1)"
    if "is_inf (fl_sub (fl_div cur prev) (Fin 1))" and "\<not> is_nan cur"
  proof -
    from that(1) have "\<not> is_nan (fl_sub (fl_div cur prev) (Fin 1))"
      by (cases "fl_sub (fl_div cur prev) (Fin 1)") simp_all
    with that(2) show ?thesis by (simp add: val pct)
  qed
  have inf: "is_inf (kw_pct_change (group_features g ! Suc j))"
    if "\<not> fl_eq cur (Fin 0)" and "\<not> is_nan cur"
    using raw [OF nonzero_by_zero [OF z that] that(2)] nonzero_by_zero [OF z that] by simp
  have signed: "kw_pct_change (group_features g ! Suc j) = fl_sub (fl_div cur prev) (Fin 1)"
    if "fl_gt cur (Fin 0) \<or> fl_lt cur (Fin 0)"
  proof -
    from that have "\<not> fl_eq cur (Fin 0)" and n: "\<not> is_nan cur"
      by (cases cur; auto simp: fl_gt_def)+
    from raw [OF nonzero_by_zero [OF z this] n] show ?thesis .
  qed
  have pos: "kw_pct_change (group_features g ! Suc j) = PInf"
    if "prev = Fin 0 \<and> fl_gt cur (Fin 0) \<or> prev = NZero \<and> fl_lt cur (Fin 0)"
    using that signed by (auto simp: by_pos_zero by_neg_zero)
  have neg: "kw_pct_change (group_features g ! Suc j) = NInf"
    if "prev = Fin 0 \<and> fl_lt cur (Fin 0) \<or> prev = NZero \<and> fl_gt cur (Fin 0)"
    using that signed by (auto simp: by_pos_zero by_neg_zero)
  show ?thesis
    using zero inf pos neg pct_column_not_nan [of _ df]
    by (simp add: out g_def [symmetric] cur_def [symmetric] prev_def [symmetric])
qed

theorem pct_change_after_zero_power_witness:
  "Suc 0 < length (meter_series zero_then_five 1)
   \<and> power_kw (meter_series zero_then_five 1 ! 0) = Fin 0
   \<and> power_kw (meter_series zero_then_five 1 ! Suc 0) = Fin 5
   \<and> kw_pct_change (group_of (engineer_features zero_then_five) 1 ! Suc 0) = PInf
   \<and> power_kw (meter_series neg_zero_then_five 1 ! 0) = NZero
   \<and> power_kw (meter_series neg_zero_then_five 1 ! Suc 0) = Fin 5
   \<and> kw_pct_change (group_of (engineer_features neg_zero_then_five) 1 ! Suc 0) = NInf"
proof -
  have h1: "Suc 0 < length (meter_series zero_then_five 1)" by code_simp
  have h2: "power_kw (meter_series zero_then_five 1 ! 0) = Fin 0" by code_simp
  have h3: "power_kw (meter_series zero_then_five 1 ! Suc 0) = Fin 5" by code_simp
  have n1: "Suc 0 < length (meter_series neg_zero_then_five 1)" by code_simp
  have n2: "power_kw (meter_series neg_zero_then_five 1 ! 0) = NZero" by code_simp
  have n3: "power_kw (meter_series neg_zero_then_five 1 ! Suc 0) = Fin 5" by code_simp
  have a: "kw_pct_change (group_of (engineer_features zero_then_five) 1 ! Suc 0) = PInf"
    using pct_change_after_zero_power [OF h1] h2 h3 by (simp add: fl_gt_def)
  have b: "kw_pct_change (group_of (engineer_features neg_zero_then_five) 1 ! Suc 0) = NInf"
    using pct_change_after_zero_power [OF n1] n2 n3 by (simp add: fl_gt_def)
  from h1 h2 h3 n2 n3 a b show ?thesis by blast
qed

text \<open>
  C4. The rows of meter \<open>m\<close> in the output, derived columns included, are determined by
  the meter's own rows in time order: two frames that agree on them give the same rows
  for \<open>m\<close>, whatever their other meters hold.
\<close>

theorem features_depend_on_own_meter:
  assumes "meter_series df1 m = meter_series df2 m"
  shows "group_of (engineer_features df1) m = group_of (engineer_features df2) m"
  using assms by (simp add: meter_features meter_series_def)

theorem features_depend_on_own_meter_witness:
  "meter_series two_meters 1 = meter_series other_meters 1
   \<and> map meter_id two_meters = [2, 1, 1, 2] \<and> map meter_id other_meters = [1, 3, 1]
   \<and> group_of (engineer_features two_meters) 1 = group_of (engineer_features other_meters) 1"
proof -
  have h: "meter_series two_meters 1 = meter_series other_meters 1" by code_simp
  have a: "map meter_id two_meters = [2, 1, 1, 2]" by code_simp
  have b: "map meter_id other_meters = [1, 3, 1]" by code_simp
  from features_depend_on_own_meter [OF h] h a b show ?thesis by blast
qed





text \<open>
  C8. For every meter present in the input, the first sample of the meter's time-ordered
  series has \<open>kw_pct_change\<close> equal to 0: the first output row of the meter is that sample
  with its derived columns set, the percent change to 0.
\<close>

theorem first_sample_pct_change_is_zero:
  assumes "m \<in> meter_id ` set df"
  shows "meter_series df m \<noteq> [] \<and> group_of (engineer_features df) m \<noteq> []
    \<and> kw_pct_change (hd (group_of (engineer_features df) m)) = Fin 0
    \<and> hd (group_of (engineer_features df) m) =
        (hd (meter_series df m))
          \<lparr>hour_of_day := hour_of_day (hd (group_of (engineer_features df) m)),
           rolling_kw_1h := rolling_kw_1h (hd (group_of (engineer_features df) m)),
           kw_pct_change := Fin 0\<rparr>"
proof -
  define g where "g = meter_series df m"
  from assms have "group_of df m \<noteq> []"
    by (auto simp: group_of_def filter_empty_conv)
  moreover have "length g = length (group_of df m)"
    by (simp add: g_def meter_series_def length_sort_values)
  ultimately have ne: "g \<noteq> []"
    by auto
  then have pos: "0 < length g" by simp
  have out: "group_of (engineer_features df) m = group_features g"
    by (simp add: meter_features g_def meter_series_def)
  have ne': "group_features g \<noteq> []"
    using ne length_group_features [of g] by auto
  have z: "fillna (Fin 0) (pct_change (map power_kw g)) ! 0 = Fin 0"
    using ne by (simp add: fillna_nth length_pct_change pct_change_first)
  have "group_features g ! 0 =
      (g ! 0)\<lparr>hour_of_day := hour_of_day (group_features g ! 0),
              rolling_kw_1h := rolling_kw_1h (group_features g ! 0),
              kw_pct_change := Fin 0\<rparr>"
    using group_features_nth [OF pos] by (simp add: z)
  moreover from this have "kw_pct_change (group_features g ! 0) = Fin 0"
    by (metis reading.select_convs(11) reading.surjective reading.update_convs(11))
  ultimately show ?thesis
    using ne ne' by (simp add: out g_def [symmetric] hd_conv_nth)
qed

theorem first_sample_pct_change_is_zero_witness:
  "hd (meter_series two_meters 1) = sample 1 0 (Fin 0)
   \<and> hd (meter_series two_meters 2) = sample 2 0 (Fin 4)
   \<and> kw_pct_change (hd (group_of (engineer_features two_meters) 1)) = Fin 0
   \<and> kw_pct_change (hd (group_of (engineer_features two_meters) 2)) = Fin 0"
proof -
  have m1: "1 \<in> meter_id ` set two_meters"
    by (simp add: two_meters_def sample_def blank_def)
  have m2: "2 \<in> meter_id ` set two_meters"
    by (simp add: two_meters_def sample_def blank_def)
  have s1: "hd (meter_series two_meters 1) = sample 1 0 (Fin 0)" by code_simp
  have s2: "hd (meter_series two_meters 2) = sample 2 0 (Fin 4)" by code_simp
  from first_sample_pct_change_is_zero [OF m1] first_sample_pct_change_is_zero [OF m2] s1 s2
  show ?thesis by blast
qed

text \<open>
  C9. Running \<open>_engineer_features\<close> on its own output returns that output: the sort keeps
  the order, and \<open>hour_of_day\<close>, \<open>rolling_kw_1h\<close> and \<open>kw_pct_change\<close> are assigned the
  values they already hold. What the three columns held before the run is never read: the
  same output results when they are first overwritten with anything (\<open>a\<close>, \<open>b\<close>, \<open>c\<close>).
\<close>

theorem engineer_features_idempotent:
  "engineer_features (engineer_features df) = engineer_features df
   \<and> engineer_features
        (map (\<lambda>r. r\<lparr>hour_of_day := a r, rolling_kw_1h := b r, kw_pct_change := c r\<rparr>)
           (engineer_features df))
      = engineer_features df
   \<and> map (\<lambda>r. (hour_of_day r, rolling_kw_1h r, kw_pct_change r))
         (engineer_features (engineer_features df))
     = map (\<lambda>r. (hour_of_day r, rolling_kw_1h r, kw_pct_change r)) (engineer_features df)"
proof -
  have "map meter_id (engineer_features (engineer_features df)) =
      map meter_id (sort_values (engineer_features df))"
    by (rule proj_engineer_features) (simp_all add: row_key_def)
  then have ids: "map meter_id (engineer_features (engineer_features df)) =
      map meter_id (engineer_features df)"
    by (simp add: sort_values_engineer_features)
  have grp: "group_of (engineer_features (engineer_features df)) m =
      group_of (engineer_features df) m" for m
    by (simp add: group_of_engineer_features [of "engineer_features df"]
        sort_values_engineer_features)
      (simp add: group_of_engineer_features [of df] group_features_twice)
  have twice: "engineer_features (engineer_features df) = engineer_features df"
    using ids grp by (rule determined_by_groups)
  then show ?thesis
    by (simp add: engineer_features_stale)
qed



section \<open>The rules on rows of the feature stage\<close>

text \<open>
  \<open>_apply_rules\<close> is run on the frame that \<open>_engineer_features\<close> produced. In such a frame
  a row with power 0 has percent change 0 or -1: it is a first sample, or its power
  divided by the previous one is zero or NaN.
\<close>

lemma row_in_own_group:
  assumes "r \<in> set xs"
  shows "\<exists>j<length (group_of xs (meter_id r)). r = group_of xs (meter_id r) ! j"
proof -
  from assms have "r \<in> set (group_of xs (meter_id r))"
    by (simp add: group_of_def)
  then show ?thesis
    by (auto simp: in_set_conv_nth)
qed

lemma zero_power_pct_change:
  assumes "r \<in> set (engineer_features df)" and "fl_eq (power_kw r) (Fin 0)"
  shows "kw_pct_change r = Fin 0 \<or> kw_pct_change r = Fin (- 1)"
proof -
  define g where "g = group_of (sort_values df) (meter_id r)"
  define ps where "ps = map power_kw g"
  have out: "group_of (engineer_features df) (meter_id r) = group_features g"
    by (simp add: group_of_engineer_features g_def)
  from row_in_own_group [OF assms(1)] obtain j
    where j: "j < length g" and r: "r = group_features g ! j"
    by (auto simp: out length_group_features)
  have pw: "power_kw r = ps ! j"
    using j by (simp add: r group_features_nth ps_def)
  have val: "kw_pct_change r = (if is_nan (pct_change ps ! j) then Fin 0 else pct_change ps ! j)"
    using j by (simp add: r group_features_nth fillna_nth length_pct_change ps_def)
  show ?thesis
  proof (cases j)
    case 0
    with j have "pct_change ps ! j = NaN"
      by (simp add: pct_change_first ps_def)
    then show ?thesis by (simp add: val)
  next
    case (Suc i)
    with j have Si: "Suc i < length ps" and i: "i < length ps"
      by (simp_all add: ps_def)
    from assms(2) have z: "fl_eq (ps ! Suc i) (Fin 0)"
      by (simp add: pw Suc)
    then have "\<not> is_nan (ps ! Suc i)"
      by (cases "ps ! Suc i") simp_all
    then have "ffill ps ! Suc i = ps ! Suc i"
      using ffill_from_nth [OF Si, of NaN] by (simp add: ffill_def)
    then have "pct_change ps ! Suc i = fl_sub (fl_div (ps ! Suc i) (ffill ps ! i)) (Fin 1)"
      by (simp add: pct_change_nth_Suc [OF Si])
    with zero_by_any [OF z, of "ffill ps ! i"] show ?thesis
      by (auto simp: val Suc)
  qed
qed

text \<open>
  C7. For every row, \<open>anomaly_reason\<close> is the names of the triggered rules joined with a
  comma in the declared order of the rule table, and null when none triggered; a row of
  the feature stage's output with voltage 300, current 60 and percent change 2.0 gets
  exactly \<open>voltage_out_of_range,current_out_of_range,sudden_spike\<close>.
\<close>

theorem reason_joined_in_table_order:
  "(i < length df \<longrightarrow>
      anomaly_reason (apply_rules df ! i) =
        (if triggered (df ! i) = [] then None else Some (join '','' (triggered (df ! i)))))
   \<and> (j < length (engineer_features df0)
        \<and> voltage (engineer_features df0 ! j) = Fin 300
        \<and> current (engineer_features df0 ! j) = Fin 60
        \<and> kw_pct_change (engineer_features df0 ! j) = Fin 2
       \<longrightarrow> anomaly_reason (apply_rules (engineer_features df0) ! j)
             = Some ''voltage_out_of_range,current_out_of_range,sudden_spike'')"
proof -
  have general: "anomaly_reason (apply_rules df ! i) =
      (if triggered (df ! i) = [] then None else Some (join '','' (triggered (df ! i))))"
    if "i < length df"
    using that by (simp add: apply_rules_map row_reason_def row_rules_triggered)
  have example: "anomaly_reason (apply_rules (engineer_features df0) ! j)
      = Some ''voltage_out_of_range,current_out_of_range,sudden_spike''"
    if j: "j < length (engineer_features df0)"
      and v: "voltage (engineer_features df0 ! j) = Fin 300"
      and c: "current (engineer_features df0 ! j) = Fin 60"
      and k: "kw_pct_change (engineer_features df0 ! j) = Fin 2"
  proof -
    from j have "engineer_features df0 ! j \<in> set (engineer_features df0)"
      by simp
    from zero_power_pct_change [OF this] k
    have "\<not> fl_eq (power_kw (engineer_features df0 ! j)) (Fin 0)"
      by auto
    with j v c k show ?thesis
      by (simp add: apply_rules_map row_reason_def row_rules_def fl_gt_def Let_def)
  qed
  from general example show ?thesis by blast
qed

theorem reason_joined_in_table_order_witness:
  "voltage (engineer_features tripled ! 1) = Fin 300
   \<and> current (engineer_features tripled ! 1) = Fin 60
   \<and> power_kw (engineer_features tripled ! 1) = Fin 3
   \<and> kw_pct_change (engineer_features tripled ! 1) = Fin 2
   \<and> triggered (engineer_features tripled ! 1)
       = [''voltage_out_of_range'', ''current_out_of_range'', ''sudden_spike'']
   \<and> anomaly_reason (apply_rules (engineer_features tripled) ! 1)
       = Some ''voltage_out_of_range,current_out_of_range,sudden_spike''"
proof -
  have l: "1 < length (engineer_features tripled)" by code_simp
  have v: "voltage (engineer_features tripled ! 1) = Fin 300" by code_simp
  have c: "current (engineer_features tripled ! 1) = Fin 60" by code_simp
  have p: "power_kw (engineer_features tripled ! 1) = Fin 3" by code_simp
  have k: "kw_pct_change (engineer_features tripled ! 1) = Fin 2" by code_simp
  have t: "triggered (engineer_features tripled ! 1)
      = [''voltage_out_of_range'', ''current_out_of_range'', ''sudden_spike'']"
    by code_simp
  have "anomaly_reason (apply_rules (engineer_features tripled) ! 1)
      = Some ''voltage_out_of_range,current_out_of_range,sudden_spike''"
    using reason_joined_in_table_order [of 1 "engineer_features tripled" 1 tripled] l v c k
    by blast
  with v c p k t show ?thesis by blast
qed

end
